theory Spec2Isabelle
  imports Main
begin

section \<open>Seat reservation of the ticket-booking application\<close>

text \<open>
  A shallow embedding of \<^verbatim>\<open>src/pages/SeatSelection.tsx\<close> (the seat page: layout expansion,
  seat states, selection toggle, booking submission) and of the booking entry of
  \<^verbatim>\<open>src/pages/MovieDetails.tsx\<close>, over a model of the tables and constraints of the SQL
  migration (\<^verbatim>\<open>bookings\<close>, \<^verbatim>\<open>booked_seats\<close>, \<^verbatim>\<open>showtimes\<close>).

  Conventions. UUIDs of showtimes and users are strings; the identifier the store
  generates for a new booking (\<^verbatim>\<open>gen_random_uuid()\<close>) is a natural number that no
  existing booking carries. Prices are \<^verbatim>\<open>DECIMAL(10,2)\<close> values, held as an integer
  number of hundredths: the page multiplies the price by the seat count in double
  precision and the column rounds the product to two decimals, which for every value
  the column can hold is the exact product. React state is a record that every handler
  takes and returns; toasts and navigations are appended to logs in that record.
\<close>

subsection \<open>Hall layout and seats\<close>

text \<open>
  A row descriptor of the JSON layout \<^verbatim>\<open>{ seats: [{ row, cols, type }] }\<close>. The layout
  is untyped JSON in the source; the model takes it to be a list of row descriptors
  with an integer count. A missing \<^verbatim>\<open>type\<close> key reads as \<^verbatim>\<open>undefined\<close>, here \<open>None\<close>.
\<close>

record RowData =
  row :: string
  cols :: int
  type :: "string option"

text \<open>The \<^verbatim>\<open>Seat\<close> interface of the page.\<close>

record Seat =
  label :: string
  seat_row :: string
  col :: int
  seat_type :: "string option"
  isBooked :: bool

text \<open>
  Decimal rendering of a number inside a template literal. The loop counter of the
  source starts at 1 and grows by 1, so only positive integers are ever rendered.
\<close>

definition digit_char :: "nat \<Rightarrow> char" where
  "digit_char d = char_of (48 + d)"

fun show_nat :: "nat \<Rightarrow> string" where
  "show_nat n = (if n < 10 then [digit_char n] else show_nat (n div 10) @ [digit_char (n mod 10)])"

declare show_nat.simps [simp del]

definition number_to_string :: "int \<Rightarrow> string" where
  "number_to_string i = (if i < 0 then CHR ''-'' # show_nat (nat (- i)) else show_nat (nat i))"

text \<open>
  The body of \<^verbatim>\<open>for (let col = 1; col <= rowData.cols; col++)\<close>: one seat per column,
  labelled \<^verbatim>\<open>`${rowData.row}${col}`\<close>, flagged as booked when the label is among the
  reserved labels fetched for the showtime.
\<close>

definition row_seats :: "string set \<Rightarrow> RowData \<Rightarrow> Seat list" where
  "row_seats bookedSeatLabels rowData =
     map (\<lambda>c. \<lparr>label = row rowData @ number_to_string c,
               seat_row = row rowData,
               col = c,
               seat_type = type rowData,
               isBooked = (row rowData @ number_to_string c \<in> bookedSeatLabels)\<rparr>)
         [1 .. cols rowData]"

text \<open>\<^verbatim>\<open>layout.seats.forEach(...)\<close>: the rows are expanded in declaration order.\<close>

definition allSeats :: "string set \<Rightarrow> RowData list \<Rightarrow> Seat list" where
  "allSeats bookedSeatLabels layout = concat (map (row_seats bookedSeatLabels) layout)"

subsection \<open>Selection toggle\<close>

text \<open>
  \<^verbatim>\<open>toggleSeat(seatLabel, isBooked)\<close> applied to the previous value of \<^verbatim>\<open>selectedSeats\<close>.
\<close>

definition toggleSeat :: "string \<Rightarrow> bool \<Rightarrow> string list \<Rightarrow> string list" where
  "toggleSeat seatLabel booked prev =
     (if booked then prev
      else if seatLabel \<in> set prev then filter (\<lambda>s. s \<noteq> seatLabel) prev
      else prev @ [seatLabel])"

text \<open>A run of clicks, each on a seat label with the booked flag the seat carries then.\<close>

fun toggles :: "(string \<times> bool) list \<Rightarrow> string list \<Rightarrow> string list" where
  "toggles [] sel = sel"
| "toggles ((l, b) # cs) sel = toggles cs (toggleSeat l b sel)"

subsection \<open>Seat states shown to the viewer\<close>

text \<open>
  The seat button receives three conditional style clauses, in this order:
  \<^verbatim>\<open>seat.isBooked && 'bg-muted cursor-not-allowed'\<close> (the legend's "Booked"),
  \<^verbatim>\<open>!seat.isBooked && !selectedSeats.includes(seat.label) && 'bg-card ...'\<close> ("Available"),
  \<^verbatim>\<open>selectedSeats.includes(seat.label) && 'bg-primary ...'\<close> ("Selected").
  \<open>seat_states\<close> lists the clauses that hold for a seat, in the source's order.
\<close>

datatype seat_state = available | selected | booked

definition seat_states :: "string list \<Rightarrow> Seat \<Rightarrow> seat_state list" where
  "seat_states selectedSeats seat =
     (if isBooked seat then [booked] else []) @
     (if \<not> isBooked seat \<and> label seat \<notin> set selectedSeats then [available] else []) @
     (if label seat \<in> set selectedSeats then [selected] else [])"

subsection \<open>The store: tables and constraints of the migration\<close>

text \<open>
  A showtime row joined with its hall (\<^verbatim>\<open>select('*, movies(*), theater_halls(*)')\<close>):
  the fields the seat page reads.
\<close>

record Showtime =
  showtime_id :: string
  ticket_price :: int
  seat_layout :: "RowData list"

text \<open>A row of \<^verbatim>\<open>bookings\<close>; \<^verbatim>\<open>booking_status\<close> defaults to \<^verbatim>\<open>'confirmed'\<close>.\<close>

record Booking =
  booking_id :: nat
  user_id :: string
  booking_showtime :: string
  booking_seats :: "string list"
  total_price :: int
  booking_status :: string

text \<open>A row of \<^verbatim>\<open>booked_seats\<close> (the reservation record).\<close>

record BookedSeat =
  seat_showtime :: string
  seat_label :: string
  seat_booking :: nat

record Store =
  profiles :: "string list"
  showtimes :: "Showtime list"
  bookings :: "Booking list"
  booked_seats :: "BookedSeat list"

text \<open>
  Errors the store answers with. Transport failures are outside the model: every store
  error below is one that a constraint of the migration raises.
\<close>

datatype store_error =
    NotSingleRow
  | ForeignKeyViolation
  | UniqueViolation
  | NumericOverflow

text \<open>\<^verbatim>\<open>.from('showtimes').select(...).eq('id', showtimeId).single()\<close>\<close>

definition select_showtime :: "Store \<Rightarrow> string \<Rightarrow> store_error + Showtime" where
  "select_showtime st showtimeId =
     (case filter (\<lambda>s. showtime_id s = showtimeId) (showtimes st) of
        [s] \<Rightarrow> Inr s
      | _ \<Rightarrow> Inl NotSingleRow)"

text \<open>\<^verbatim>\<open>.from('booked_seats').select('seat_label').eq('showtime_id', showtimeId)\<close>\<close>

definition select_booked_seats :: "Store \<Rightarrow> string \<Rightarrow> string list" where
  "select_booked_seats st showtimeId =
     map seat_label (filter (\<lambda>r. seat_showtime r = showtimeId) (booked_seats st))"

text \<open>The identifier given to a new booking: larger than every identifier in the table.\<close>

definition fresh_id :: "Store \<Rightarrow> nat" where
  "fresh_id st = Suc (fold max (map booking_id (bookings st)) 0)"

text \<open>
  \<^verbatim>\<open>.from('bookings').insert({user_id, showtime_id, seats, total_price}).select().single()\<close>.
  The row is rejected when \<^verbatim>\<open>total_price\<close> does not fit \<^verbatim>\<open>DECIMAL(10,2)\<close> (the value is
  coerced to the column's type before the row is formed), or when \<^verbatim>\<open>user_id\<close> or
  \<^verbatim>\<open>showtime_id\<close> references no row; otherwise it is appended with a generated
  identifier and the default status, and returned.
\<close>

definition insert_booking ::
  "Store \<Rightarrow> string \<Rightarrow> string \<Rightarrow> string list \<Rightarrow> int \<Rightarrow> store_error + (Booking \<times> Store)" where
  "insert_booking st uid showtimeId seatLabels totalPrice =
     (if \<bar>totalPrice\<bar> \<ge> 10 ^ 10 then Inl NumericOverflow
      else if uid \<notin> set (profiles st) \<or> showtimeId \<notin> set (map showtime_id (showtimes st))
      then Inl ForeignKeyViolation
      else
        let b = \<lparr>booking_id = fresh_id st, user_id = uid, booking_showtime = showtimeId,
                 booking_seats = seatLabels, total_price = totalPrice,
                 booking_status = ''confirmed''\<rparr>
        in Inr (b, st\<lparr>bookings := bookings st @ [b]\<rparr>))"

text \<open>
  One \<^verbatim>\<open>INSERT\<close> statement with several rows into \<^verbatim>\<open>booked_seats\<close>. Each row, as it
  is inserted, is checked against \<^verbatim>\<open>UNIQUE(showtime_id, seat_label)\<close> on the table as
  extended by the rows before it; the two foreign keys of all rows are checked when the
  statement ends. The statement is atomic: a violation aborts it and the table stays as
  it was.
\<close>

fun insert_rows :: "BookedSeat list \<Rightarrow> BookedSeat list \<Rightarrow> store_error + BookedSeat list" where
  "insert_rows tbl [] = Inr tbl"
| "insert_rows tbl (r # rs) =
     (if \<exists>x \<in> set tbl. seat_showtime x = seat_showtime r \<and> seat_label x = seat_label r
      then Inl UniqueViolation
      else insert_rows (tbl @ [r]) rs)"

definition insert_booked_seats :: "Store \<Rightarrow> BookedSeat list \<Rightarrow> store_error + Store" where
  "insert_booked_seats st rows =
     (case insert_rows (booked_seats st) rows of
        Inl e \<Rightarrow> Inl e
      | Inr tbl \<Rightarrow>
          if \<exists>r \<in> set rows. seat_showtime r \<notin> set (map showtime_id (showtimes st))
                             \<or> seat_booking r \<notin> set (map booking_id (bookings st))
          then Inl ForeignKeyViolation
          else Inr (st\<lparr>booked_seats := tbl\<rparr>))"

subsection \<open>State of the seat page\<close>

datatype toast =
    ErrorLoadingSeats
  | BookingConfirmed nat
  | BookingFailed store_error
  | PleaseSignIn

text \<open>
  The \<^verbatim>\<open>useState\<close> cells of the component, with the toasts shown and the routes
  navigated to so far.
\<close>

record Page =
  seats :: "Seat list"
  selectedSeats :: "string list"
  showtime :: "Showtime option"
  loading :: bool
  booking :: bool
  toasts :: "toast list"
  navigated :: "string list"

definition initial_page :: Page where
  "initial_page = \<lparr>seats = [], selectedSeats = [], showtime = None, loading = True,
                    booking = False, toasts = [], navigated = []\<rparr>"

text \<open>
  \<^verbatim>\<open>fetchShowtimeAndSeats\<close>. It runs on mount and again on every change notification for
  the showtime's \<^verbatim>\<open>booked_seats\<close> rows. A store error is caught and shown as a toast;
  \<^verbatim>\<open>finally\<close> clears the loading flag on both paths.
\<close>

definition fetchShowtimeAndSeats :: "string \<Rightarrow> Store \<Rightarrow> Page \<Rightarrow> Page" where
  "fetchShowtimeAndSeats showtimeId st pg =
     (case select_showtime st showtimeId of
        Inl e \<Rightarrow> pg\<lparr>toasts := toasts pg @ [ErrorLoadingSeats], loading := False\<rparr>
      | Inr showtimeData \<Rightarrow>
          let bookedSeatLabels = set (select_booked_seats st showtimeId)
          in pg\<lparr>showtime := Some showtimeData,
                seats := allSeats bookedSeatLabels (seat_layout showtimeData),
                loading := False\<rparr>)"

text \<open>The click handler of a seat button: the selection cell is updated by \<open>toggleSeat\<close>.\<close>

definition click_seat :: "Seat \<Rightarrow> Page \<Rightarrow> Page" where
  "click_seat seat pg = pg\<lparr>selectedSeats := toggleSeat (label seat) (isBooked seat) (selectedSeats pg)\<rparr>"

subsection \<open>Booking submission\<close>

text \<open>
  The two store statements of \<^verbatim>\<open>handleBooking\<close>'s \<^verbatim>\<open>try\<close> block: the booking row, then
  one reservation row per selected seat carrying the new booking's identifier. A
  statement that fails throws; nothing in the handler undoes an earlier statement.
\<close>

definition seatReservations :: "string \<Rightarrow> string list \<Rightarrow> Booking \<Rightarrow> BookedSeat list" where
  "seatReservations showtimeId sel bookingData =
     map (\<lambda>seatLabel. \<lparr>seat_showtime = showtimeId, seat_label = seatLabel,
                        seat_booking = booking_id bookingData\<rparr>) sel"

definition try_booking ::
  "string \<Rightarrow> string \<Rightarrow> Showtime \<Rightarrow> string list \<Rightarrow> Store \<Rightarrow> (store_error + Booking) \<times> Store" where
  "try_booking uid showtimeId showtimeData sel st =
     (let totalPrice = ticket_price showtimeData * int (length sel)
      in case insert_booking st uid showtimeId sel totalPrice of
           Inl bookingError \<Rightarrow> (Inl bookingError, st)
         | Inr (bookingData, st1) \<Rightarrow>
             (case insert_booked_seats st1 (seatReservations showtimeId sel bookingData) of
                Inl seatsError \<Rightarrow> (Inl seatsError, st1)
              | Inr st2 \<Rightarrow> (Inr bookingData, st2)))"

text \<open>
  \<^verbatim>\<open>handleBooking\<close>: the guard returns without any effect; otherwise the outcome of the
  \<^verbatim>\<open>try\<close> block is shown as a toast, success navigates to \<^verbatim>\<open>/bookings\<close>, and
  \<^verbatim>\<open>finally\<close> resets the \<^verbatim>\<open>booking\<close> flag. The user is \<open>None\<close> when nobody is
  signed in.
\<close>

definition handleBooking :: "string option \<Rightarrow> string \<Rightarrow> Page \<times> Store \<Rightarrow> Page \<times> Store" where
  "handleBooking user showtimeId ps =
     (let pg = fst ps; st = snd ps in
      case (user, showtime pg) of
        (Some uid, Some showtimeData) \<Rightarrow>
          if selectedSeats pg = [] then (pg, st)
          else
            (case try_booking uid showtimeId showtimeData (selectedSeats pg) st of
               (Inr bookingData, st') \<Rightarrow>
                 (pg\<lparr>toasts := toasts pg @ [BookingConfirmed (length (selectedSeats pg))],
                     navigated := navigated pg @ [''/bookings''],
                     booking := False\<rparr>, st')
             | (Inl error, st') \<Rightarrow>
                 (pg\<lparr>toasts := toasts pg @ [BookingFailed error], booking := False\<rparr>, st'))
      | _ \<Rightarrow> (pg, st))"

subsection \<open>Entering and leaving the seat page\<close>

text \<open>
  \<^verbatim>\<open>handleBooking\<close> of the movie page (\<^verbatim>\<open>MovieDetails.tsx\<close>), the way into the seat page,
  over the toasts shown and the routes navigated to: without a signed-in user it says
  so and goes to the sign-in route; with one it goes to the seat page of the showtime.
\<close>

definition MovieDetails_handleBooking ::
  "string option \<Rightarrow> string \<Rightarrow> toast list \<times> string list \<Rightarrow> toast list \<times> string list" where
  "MovieDetails_handleBooking user showtimeId log =
     (case user of
        None \<Rightarrow> (fst log @ [PleaseSignIn], snd log @ [''/auth''])
      | Some uid \<Rightarrow> (fst log, snd log @ [''/booking/'' @ showtimeId]))"

text \<open>
  The route table of the application is not among the sources; the navigation calls
  show what it holds. The movie page reaches the seat page at
  \<^verbatim>\<open>/booking/${showtimeId}\<close>, and the seat page reads \<^verbatim>\<open>showtimeId\<close> from its route; the
  navigation bar and the seat page's success path go to \<^verbatim>\<open>/bookings\<close>, the page of the
  user's bookings. \<open>seat_page_route\<close> holds of the paths the seat page is rendered at.
\<close>

definition seat_page_route :: "string \<Rightarrow> bool" where
  "seat_page_route path = (take 9 path = ''/booking/'')"




subsection \<open>Submissions racing on one store\<close>

text \<open>
  Several clients submit against the same store. Each statement of a submission is one
  atomic step of the store, and the steps of different clients interleave in any order:
  a schedule names the client that takes the next step. A client's progress is where its
  \<^verbatim>\<open>handleBooking\<close> stands: nothing sent yet, booking row inserted, or finished with the
  outcome the handler reports.
\<close>

record Submission =
  sub_user :: string
  sub_showtime :: string
  sub_showtimeData :: Showtime
  sub_seats :: "string list"

datatype progress =
    Submitted
  | BookingInserted Booking
  | Confirmed Booking
  | Failed store_error

definition client_step :: "Submission \<Rightarrow> progress \<Rightarrow> Store \<Rightarrow> progress \<times> Store" where
  "client_step sub p st =
     (case p of
        Submitted \<Rightarrow>
          (case insert_booking st (sub_user sub) (sub_showtime sub) (sub_seats sub)
                  (ticket_price (sub_showtimeData sub) * int (length (sub_seats sub))) of
             Inl bookingError \<Rightarrow> (Failed bookingError, st)
           | Inr (bookingData, st1) \<Rightarrow> (BookingInserted bookingData, st1))
      | BookingInserted bookingData \<Rightarrow>
          (case insert_booked_seats st
                  (seatReservations (sub_showtime sub) (sub_seats sub) bookingData) of
             Inl seatsError \<Rightarrow> (Failed seatsError, st)
           | Inr st2 \<Rightarrow> (Confirmed bookingData, st2))
      | Confirmed bookingData \<Rightarrow> (p, st)
      | Failed error \<Rightarrow> (p, st))"

fun run :: "nat list \<Rightarrow> Submission list \<Rightarrow> progress list \<times> Store \<Rightarrow> progress list \<times> Store" where
  "run [] subs cfg = cfg"
| "run (i # sched) subs (ps, st) =
     (if i < length ps \<and> i < length subs
      then (case client_step (subs ! i) (ps ! i) st of
              (p, st') \<Rightarrow> run sched subs (ps[i := p], st'))
      else run sched subs (ps, st))"

subsection \<open>Vocabulary of the properties\<close>

text \<open>A decimal digit character.\<close>

definition is_digit :: "char \<Rightarrow> bool" where
  "is_digit c = ((48::nat) \<le> of_char c \<and> of_char c \<le> (57::nat))"

text \<open>
  The cells a layout describes: columns 1 to \<open>cols\<close> of every row, rows in declaration
  order. \<open>plain_rows\<close> holds of a layout whose row labels are pairwise different and
  do not end in a digit.
\<close>

definition layout_cells :: "RowData list \<Rightarrow> (string \<times> int) list" where
  "layout_cells layout = concat (map (\<lambda>r. map (\<lambda>c. (row r, c)) [1 .. cols r]) layout)"

definition plain_rows :: "RowData list \<Rightarrow> bool" where
  "plain_rows layout =
     (distinct (map row layout) \<and> (\<forall>r \<in> set layout. row r = [] \<or> \<not> is_digit (last (row r))))"

text \<open>
  \<open>store_fk\<close>: the foreign key of \<^verbatim>\<open>booked_seats.booking_id\<close> holds, every
  reservation row references a booking of the table. \<open>owned_rows\<close>: the reservation
  rows that reference a booking.
\<close>

definition store_fk :: "Store \<Rightarrow> bool" where
  "store_fk st = (\<forall>r \<in> set (booked_seats st). seat_booking r \<in> set (map booking_id (bookings st)))"



text \<open>
  \<open>unique_seats\<close>: the constraint \<^verbatim>\<open>UNIQUE(showtime_id, seat_label)\<close> holds of the table.
  \<open>race_inv\<close> is the invariant of a race: the constraint holds, the bookings the
  clients have inserted are rows of the table with pairwise different identifiers, and
  every seat of a confirmed client is reserved for its booking.
\<close>

definition seat_key :: "BookedSeat \<Rightarrow> string \<times> string" where
  "seat_key r = (seat_showtime r, seat_label r)"

definition unique_seats :: "Store \<Rightarrow> bool" where
  "unique_seats st = distinct (map seat_key (booked_seats st))"

definition carried :: "progress \<Rightarrow> Booking option" where
  "carried p = (case p of BookingInserted b \<Rightarrow> Some b | Confirmed b \<Rightarrow> Some b
                | Submitted \<Rightarrow> None | Failed e \<Rightarrow> None)"

definition holds_seats :: "Submission \<Rightarrow> Booking \<Rightarrow> Store \<Rightarrow> bool" where
  "holds_seats sub b st =
     (\<forall>l \<in> set (sub_seats sub).
        \<lparr>seat_showtime = sub_showtime sub, seat_label = l, seat_booking = booking_id b\<rparr>
          \<in> set (booked_seats st))"

definition race_inv :: "Submission list \<Rightarrow> progress list \<times> Store \<Rightarrow> bool" where
  "race_inv subs cfg =
     (let ps = fst cfg; st = snd cfg in
        length ps = length subs \<and> unique_seats st
        \<and> (\<forall>i < length ps. \<forall>b. carried (ps ! i) = Some b
              \<longrightarrow> booking_id b \<in> set (map booking_id (bookings st)))
        \<and> (\<forall>i < length ps. \<forall>j < length ps. \<forall>b b'.
              i \<noteq> j \<and> carried (ps ! i) = Some b \<and> carried (ps ! j) = Some b'
              \<longrightarrow> booking_id b \<noteq> booking_id b')
        \<and> (\<forall>i < length ps. \<forall>b. ps ! i = Confirmed b \<longrightarrow> holds_seats (subs ! i) b st))"

subsection \<open>Example data\<close>

text \<open>
  The scenario of the specification: a hall with rows A and B of two standard seats, one
  showtime at 10.00 per seat, two signed-up users.
\<close>

definition ex_hall :: "RowData list" where
  "ex_hall = [\<lparr>row = ''A'', cols = 2, type = Some ''standard''\<rparr>,
              \<lparr>row = ''B'', cols = 2, type = Some ''standard''\<rparr>]"

definition ex_showtime :: Showtime where
  "ex_showtime = \<lparr>showtime_id = ''s1'', ticket_price = 1000, seat_layout = ex_hall\<rparr>"

definition ex_store :: Store where
  "ex_store = \<lparr>profiles = [''u1'', ''u2''], showtimes = [ex_showtime],
                 bookings = [], booked_seats = []\<rparr>"

text \<open>
  The store after user \<open>u1\<close> has booked A1 and B2, the page of a second viewer who
  selected A1 while it was free, and the booking row that viewer's submission inserts.
\<close>

definition ex_booking1 :: Booking where
  "ex_booking1 = \<lparr>booking_id = 1, user_id = ''u1'', booking_showtime = ''s1'',
                    booking_seats = [''A1'', ''B2''], total_price = 2000,
                    booking_status = ''confirmed''\<rparr>"

definition ex_store1 :: Store where
  "ex_store1 = ex_store\<lparr>bookings := [ex_booking1],
                         booked_seats := [\<lparr>seat_showtime = ''s1'', seat_label = ''A1'', seat_booking = 1\<rparr>,
                                          \<lparr>seat_showtime = ''s1'', seat_label = ''B2'', seat_booking = 1\<rparr>]\<rparr>"

definition ex_page :: Page where
  "ex_page = click_seat \<lparr>label = ''A1'', seat_row = ''A'', col = 1,
                          seat_type = Some ''standard'', isBooked = False\<rparr>
               (fetchShowtimeAndSeats ''s1'' ex_store initial_page)"

definition ex_booking2 :: Booking where
  "ex_booking2 = \<lparr>booking_id = 2, user_id = ''u2'', booking_showtime = ''s1'',
                    booking_seats = [''A1''], total_price = 1000,
                    booking_status = ''confirmed''\<rparr>"

text \<open>
  A hall whose first row has no seats and whose second row has no type tag, and the
  example store with that hall behind its showtime.
\<close>

definition ex_hall_odd :: "RowData list" where
  "ex_hall_odd = [\<lparr>row = ''A'', cols = 0, type = Some ''standard''\<rparr>,
                  \<lparr>row = ''B'', cols = 1, type = None\<rparr>]"

definition ex_store_odd :: Store where
  "ex_store_odd = ex_store\<lparr>showtimes := [ex_showtime\<lparr>seat_layout := ex_hall_odd\<rparr>]\<rparr>"



text \<open>Two submissions for the same showtime that both ask for seat A1.\<close>

definition ex_subs :: "Submission list" where
  "ex_subs = [\<lparr>sub_user = ''u1'', sub_showtime = ''s1'', sub_showtimeData = ex_showtime,
               sub_seats = [''A1'', ''B2'']\<rparr>,
              \<lparr>sub_user = ''u2'', sub_showtime = ''s1'', sub_showtimeData = ex_showtime,
               sub_seats = [''A1'']\<rparr>]"

section \<open>Properties\<close>

subsection \<open>Decimal rendering\<close>

lemma of_char_digit_char: "d < 10 \<Longrightarrow> of_char (digit_char d) = (48 + d :: nat)"
  by (simp add: digit_char_def)

lemma digit_char_inj: "a < 10 \<Longrightarrow> b < 10 \<Longrightarrow> digit_char a = digit_char b \<Longrightarrow> a = b"
proof -
  assume a: "a < 10" and b: "b < 10" and e: "digit_char a = digit_char b"
  have "(of_char (digit_char a) :: nat) = of_char (digit_char b)"
    by (rule arg_cong [OF e])
  then have "48 + a = 48 + b"
    by (simp only: of_char_digit_char [OF a] of_char_digit_char [OF b])
  then show "a = b" by linarith
qed

lemma is_digit_digit_char: "d < 10 \<Longrightarrow> is_digit (digit_char d)"
  by (simp add: is_digit_def of_char_digit_char)

lemma show_nat_ne: "show_nat n \<noteq> []"
  by (subst show_nat.simps) simp

lemma show_nat_digits: "\<forall>c \<in> set (show_nat n). is_digit c"
proof (induction n rule: show_nat.induct)
  case (1 n)
  show ?case
  proof (cases "n < 10")
    case True
    then show ?thesis by (subst show_nat.simps) (simp add: is_digit_digit_char)
  next
    case False
    then have "\<forall>c \<in> set (show_nat (n div 10)). is_digit c" using 1 by simp
    then show ?thesis using False by (subst show_nat.simps) (simp add: is_digit_digit_char)
  qed
qed

lemma show_nat_length: "n \<ge> 10 \<Longrightarrow> length (show_nat n) \<ge> 2"
  apply (subst show_nat.simps)
  using show_nat_ne[of "n div 10"] apply (cases "show_nat (n div 10)") apply auto
  done

lemma show_nat_inj: "show_nat n = show_nat m \<Longrightarrow> n = m"
proof (induction n arbitrary: m rule: show_nat.induct)
  case (1 n)
  show ?case
  proof (cases "n < 10")
    case True
    note n = this
    show ?thesis
    proof (cases "m < 10")
      case True
      then show ?thesis using n 1(2) digit_char_inj[of n m]
        by (simp add: show_nat.simps[of n] show_nat.simps[of m])
    next
      case False
      then have "length (show_nat m) \<ge> 2" by (simp add: show_nat_length)
      moreover have "length (show_nat n) = 1" using n by (simp add: show_nat.simps[of n])
      ultimately show ?thesis using 1(2) by simp
    qed
  next
    case False
    note n = this
    show ?thesis
    proof (cases "m < 10")
      case True
      then have "length (show_nat m) = 1" by (simp add: show_nat.simps[of m])
      moreover have "length (show_nat n) \<ge> 2" using n by (simp add: show_nat_length)
      ultimately show ?thesis using 1(2) by simp
    next
      case False
      have "show_nat (n div 10) @ [digit_char (n mod 10)] = show_nat (m div 10) @ [digit_char (m mod 10)]"
        using 1(2) n False by (simp add: show_nat.simps[of n] show_nat.simps[of m])
      then have a: "show_nat (n div 10) = show_nat (m div 10)" and b: "digit_char (n mod 10) = digit_char (m mod 10)"
        by simp_all
      from a have "n div 10 = m div 10" using 1(1) n by simp
      moreover from b have "n mod 10 = m mod 10" by (intro digit_char_inj) simp_all
      ultimately show ?thesis by (metis div_mult_mod_eq)
    qed
  qed
qed

lemma label_split:
  assumes "r1 = [] \<or> \<not> is_digit (last r1)" "r2 = [] \<or> \<not> is_digit (last r2)"
    and "r1 @ show_nat c1 = r2 @ show_nat c2"
  shows "r1 = r2 \<and> c1 = c2"
proof -
  have tw: "takeWhile is_digit (rev (show_nat c) @ rev r) = rev (show_nat c)"
    if "r = [] \<or> \<not> is_digit (last r)" for r c
  proof (cases "r = []")
    case True
    then show ?thesis using show_nat_digits[of c] by simp
  next
    case False
    then have "\<not> is_digit (hd (rev r))" using that by (simp add: hd_rev)
    moreover have "rev r \<noteq> []" using False by simp
    ultimately show ?thesis using show_nat_digits[of c]
      by (cases "rev r") (simp_all add: takeWhile_tail)
  qed
  have "rev (show_nat c1) @ rev r1 = rev (show_nat c2) @ rev r2"
    using assms(3) by (metis rev_append)
  then have "rev (show_nat c1) = rev (show_nat c2)"
    using tw[OF assms(1), of c1] tw[OF assms(2), of c2] by simp
  then have "show_nat c1 = show_nat c2" by simp
  then show ?thesis using assms(3) show_nat_inj by auto
qed

subsection \<open>Layout expansion\<close>

lemma length_row_seats: "length (row_seats B r) = nat (cols r)"
  by (simp add: row_seats_def)

lemma number_to_string_pos: "1 \<le> c \<Longrightarrow> number_to_string c = show_nat (nat c)"
  by (simp add: number_to_string_def)

lemma length_allSeats: "length (allSeats B L) = sum_list (map (\<lambda>r. nat (cols r)) L)"
  by (induction L) (simp_all add: allSeats_def length_row_seats)

lemma length_allSeats_nonneg:
  "\<forall>r \<in> set L. 0 \<le> cols r \<Longrightarrow> int (length (allSeats B L)) = sum_list (map cols L)"
  by (induction L) (simp_all add: allSeats_def length_row_seats)

lemma cells_allSeats: "map (\<lambda>s. (seat_row s, col s)) (allSeats B L) = layout_cells L"
  by (induction L) (simp_all add: allSeats_def layout_cells_def row_seats_def comp_def)

lemma labels_allSeats:
  "map label (allSeats B L) = map (\<lambda>(r, c). r @ number_to_string c) (layout_cells L)"
  by (induction L) (simp_all add: allSeats_def layout_cells_def row_seats_def comp_def)

lemma label_of_seat:
  "s \<in> set (allSeats B L) \<Longrightarrow> label s = seat_row s @ number_to_string (col s) \<and> 1 \<le> col s"
  by (auto simp: allSeats_def row_seats_def)

lemma layout_cells_set:
  "(r, c) \<in> set (layout_cells L) \<longleftrightarrow> (\<exists>d \<in> set L. row d = r \<and> 1 \<le> c \<and> c \<le> cols d)"
  by (fastforce simp: layout_cells_def)

lemma distinct_layout_cells: "distinct (map row L) \<Longrightarrow> distinct (layout_cells L)"
proof (induction L)
  case Nil
  then show ?case by (simp add: layout_cells_def)
next
  case (Cons d L)
  have tl: "distinct (layout_cells L)" using Cons by simp
  have hd: "distinct (map (\<lambda>c. (row d, c)) [1 .. cols d])"
    by (simp add: distinct_map inj_on_def)
  have disj: "set (map (\<lambda>c. (row d, c)) [1 .. cols d]) \<inter> set (layout_cells L) = {}"
  proof (rule ccontr)
    assume "\<not> ?thesis"
    then obtain r c where "(r, c) \<in> set (map (\<lambda>c. (row d, c)) [1 .. cols d])"
      and in_tl: "(r, c) \<in> set (layout_cells L)" by auto
    then have "r = row d" by auto
    moreover from in_tl have "r \<in> set (map row L)" by (auto simp: layout_cells_set)
    ultimately show False using Cons.prems by simp
  qed
  have "layout_cells (d # L) = map (\<lambda>c. (row d, c)) [1 .. cols d] @ layout_cells L"
    by (simp add: layout_cells_def)
  then show ?case using tl hd disj by (simp only: distinct_append)
qed

lemma label_inj_on_cells:
  assumes "\<forall>r \<in> set L. row r = [] \<or> \<not> is_digit (last (row r))"
  shows "inj_on (\<lambda>(r, c). r @ number_to_string c) (set (layout_cells L))"
proof (rule inj_onI)
  fix x y
  assume x: "x \<in> set (layout_cells L)" and y: "y \<in> set (layout_cells L)"
    and e: "(case x of (r, c) \<Rightarrow> r @ number_to_string c) = (case y of (r, c) \<Rightarrow> r @ number_to_string c)"
  obtain r1 c1 where x_eq: "x = (r1, c1)" by (cases x)
  obtain r2 c2 where y_eq: "y = (r2, c2)" by (cases y)
  from x x_eq obtain d1 where d1: "d1 \<in> set L" "row d1 = r1" "1 \<le> c1"
    by (auto simp: layout_cells_set)
  from y y_eq obtain d2 where d2: "d2 \<in> set L" "row d2 = r2" "1 \<le> c2"
    by (auto simp: layout_cells_set)
  have p1: "r1 = [] \<or> \<not> is_digit (last r1)" using assms d1 by auto
  have p2: "r2 = [] \<or> \<not> is_digit (last r2)" using assms d2 by auto
  have "r1 @ show_nat (nat c1) = r2 @ show_nat (nat c2)"
    using e x_eq y_eq d1(3) d2(3) by (simp add: number_to_string_pos)
  then have "r1 = r2 \<and> nat c1 = nat c2" by (rule label_split [OF p1 p2])
  then show "x = y" using x_eq y_eq d1(3) d2(3) by (simp add: nat_eq_iff)
qed

lemma distinct_labels: "plain_rows L \<Longrightarrow> distinct (map label (allSeats B L))"
  unfolding plain_rows_def labels_allSeats
  by (simp add: distinct_map distinct_layout_cells label_inj_on_cells)

text \<open>
  Two layouts on which the expansion does not do what claim C5 says of every layout.
  Rows \<open>A\<close> (11 seats) and \<open>A1\<close> (1 seat) have different labels, yet seat 11 of the
  first and seat 1 of the second both get the identifier \<open>A11\<close>. A row with a negative
  count contributes no seat, so the number of seats is not the sum of the counts.
\<close>

theorem allSeats_counterexample:
  "\<not> distinct (map label (allSeats {}
        [\<lparr>row = ''A'', cols = 11, type = Some ''standard''\<rparr>,
         \<lparr>row = ''A1'', cols = 1, type = Some ''standard''\<rparr>]))
   \<and> int (length (allSeats {}
        [\<lparr>row = ''A'', cols = 2, type = Some ''standard''\<rparr>,
         \<lparr>row = ''B'', cols = - 1, type = Some ''standard''\<rparr>])) \<noteq> 2 + (- 1)"
  by code_simp

text \<open>
  Claim C5, as amended. For every layout the expansion yields one seat per column 1 to
  \<open>cols\<close> of every row, rows in declaration order, a row with a non-positive count
  contributing none: the number of seats is the sum of the counts cut off at zero, and
  the sum of the counts when none is negative. Every seat's identifier is its row label
  followed by its 1-based column number in decimal. The identifiers are pairwise
  different when the row labels are pairwise different and none ends in a digit.
\<close>

theorem allSeats_expansion:
  "length (allSeats B L) = sum_list (map (\<lambda>r. nat (cols r)) L)
   \<and> ((\<forall>r \<in> set L. 0 \<le> cols r) \<longrightarrow> int (length (allSeats B L)) = sum_list (map cols L))
   \<and> map (\<lambda>s. (seat_row s, col s)) (allSeats B L) = layout_cells L
   \<and> (\<forall>s \<in> set (allSeats B L). label s = seat_row s @ show_nat (nat (col s)) \<and> 1 \<le> col s)
   \<and> (plain_rows L \<longrightarrow> distinct (map label (allSeats B L)))"
proof -
  have "label s = seat_row s @ show_nat (nat (col s)) \<and> 1 \<le> col s"
    if "s \<in> set (allSeats B L)" for s
    using label_of_seat [OF that] by (simp add: number_to_string_pos)
  then show ?thesis
    using length_allSeats length_allSeats_nonneg cells_allSeats distinct_labels by blast
qed

theorem allSeats_expansion_witness:
  "plain_rows ex_hall \<and> list_all (\<lambda>r. 0 \<le> cols r) ex_hall
   \<and> length (allSeats {} ex_hall) = 4
   \<and> map label (allSeats {} ex_hall) = [''A1'', ''A2'', ''B1'', ''B2'']
   \<and> distinct (map label (allSeats {} ex_hall))"
proof -
  have p: "plain_rows ex_hall" by code_simp
  have n: "list_all (\<lambda>r. 0 \<le> cols r) ex_hall" by code_simp
  have l: "map label (allSeats {} ex_hall) = [''A1'', ''A2'', ''B1'', ''B2'']" by code_simp
  have s: "sum_list (map cols ex_hall) = 4" by code_simp
  from allSeats_expansion [of "{}" ex_hall] p n s
  have "length (allSeats {} ex_hall) = 4 \<and> distinct (map label (allSeats {} ex_hall))"
    by (simp add: list_all_iff)
  then show ?thesis using p n l by simp
qed

subsection \<open>Selection toggle\<close>

text \<open>
  Claim C8. Toggling a seat whose state is booked leaves the selection as it is. Toggling
  a seat that is not booked appends it when it is absent and removes it when it is
  present; doing so twice gives back a selection with the same members (the very same
  list when the seat was absent at first). A selection without repeated labels stays
  so, hence every selection reached from the empty one by clicks has no label twice.
\<close>

theorem toggleSeat_selection:
  "toggleSeat l True sel = sel
   \<and> (a \<notin> set sel1 \<longrightarrow> toggleSeat a False sel1 = sel1 @ [a]
        \<and> toggleSeat a False (toggleSeat a False sel1) = sel1)
   \<and> (r \<in> set sel2 \<longrightarrow> toggleSeat r False sel2 = filter (\<lambda>s. s \<noteq> r) sel2
        \<and> r \<notin> set (toggleSeat r False sel2))
   \<and> set (toggleSeat l False (toggleSeat l False sel)) = set sel
   \<and> (distinct sel3 \<longrightarrow> distinct (toggleSeat l b sel3))
   \<and> distinct (toggles clicks [])"
proof -
  have pres: "distinct (toggleSeat x c s)" if "distinct s" for x c s
    using that by (simp add: toggleSeat_def)
  have run: "distinct s \<Longrightarrow> distinct (toggles cs s)" for cs s
  proof (induction cs arbitrary: s)
    case Nil
    then show ?case by simp
  next
    case (Cons c cs)
    obtain x f where c: "c = (x, f)" by (cases c)
    show ?case using Cons pres [of s x f] by (simp add: c)
  qed
  have twice: "set (toggleSeat l False (toggleSeat l False sel)) = set sel"
    by (auto simp: toggleSeat_def)
  have add: "toggleSeat a False sel1 = sel1 @ [a] \<and> toggleSeat a False (toggleSeat a False sel1) = sel1"
    if "a \<notin> set sel1"
    using that by (auto simp: toggleSeat_def filter_id_conv)
  have rem: "toggleSeat r False sel2 = filter (\<lambda>s. s \<noteq> r) sel2 \<and> r \<notin> set (toggleSeat r False sel2)"
    if "r \<in> set sel2"
    using that by (simp add: toggleSeat_def)
  have "distinct (toggles clicks [])" by (rule run) simp
  then show ?thesis using pres twice add rem by (simp add: toggleSeat_def)
qed

theorem toggleSeat_selection_witness:
  "''B2'' \<notin> set [''A1''] \<and> ''A1'' \<in> set [''A1'', ''A2''] \<and> distinct [''A1'', ''A2'']
   \<and> toggleSeat ''A1'' True [''A2''] = [''A2'']
   \<and> toggleSeat ''B2'' False [''A1''] = [''A1'', ''B2'']
   \<and> toggleSeat ''A1'' False [''A1'', ''A2''] = [''A2'']
   \<and> distinct (toggleSeat ''A1'' False [''A1'', ''A2''])
   \<and> distinct (toggles [(''A1'', False), (''A2'', False), (''A1'', False)] [])"
  using toggleSeat_selection [of "''A1''" "[''A2'']" "''B2''" "[''A1'']" "''A1''" "[''A1'', ''A2'']"
      "[''A1'', ''A2'']" False "[(''A1'', False), (''A2'', False), (''A1'', False)]"]
  by simp

subsection \<open>The store\<close>

lemma fold_max_ge: "(a::nat) \<le> fold max xs a \<and> (\<forall>x \<in> set xs. x \<le> fold max xs a)"
proof (induction xs arbitrary: a)
  case Nil
  then show ?case by simp
next
  case (Cons y ys)
  have "max y a \<le> fold max ys (max y a)" and "\<forall>x \<in> set ys. x \<le> fold max ys (max y a)"
    using Cons.IH [of "max y a"] by simp_all
  then show ?case by auto
qed

lemma fresh_id_new: "b \<in> set (bookings st) \<Longrightarrow> booking_id b < fresh_id st"
  using fold_max_ge [of 0 "map booking_id (bookings st)"] by (auto simp: fresh_id_def less_Suc_eq_le)

lemma fresh_id_notin: "fresh_id st \<notin> set (map booking_id (bookings st))"
proof
  assume "fresh_id st \<in> set (map booking_id (bookings st))"
  then obtain b where "b \<in> set (bookings st)" and "booking_id b = fresh_id st" by auto
  then show False using fresh_id_new [of b st] by simp
qed

lemma insert_rows_Inr: "insert_rows tbl rows = Inr tbl' \<Longrightarrow> tbl' = tbl @ rows"
proof (induction rows arbitrary: tbl)
  case Nil
  then show ?case by simp
next
  case (Cons r rs)
  from Cons.prems have "insert_rows (tbl @ [r]) rs = Inr tbl'"
    by (simp split: if_splits)
  then have "tbl' = (tbl @ [r]) @ rs" by (rule Cons.IH)
  then show ?case by simp
qed

lemma insert_rows_conflict:
  assumes "\<exists>r \<in> set rows. \<exists>x \<in> set tbl. seat_showtime x = seat_showtime r \<and> seat_label x = seat_label r"
  shows "insert_rows tbl rows = Inl UniqueViolation"
  using assms
proof (induction rows arbitrary: tbl)
  case Nil
  then show ?case by simp
next
  case (Cons r rs)
  show ?case
  proof (cases "\<exists>x \<in> set tbl. seat_showtime x = seat_showtime r \<and> seat_label x = seat_label r")
    case True
    then show ?thesis by simp
  next
    case False
    then have "\<exists>r' \<in> set rs. \<exists>x \<in> set (tbl @ [r]). seat_showtime x = seat_showtime r' \<and> seat_label x = seat_label r'"
      using Cons.prems by auto
    then have "insert_rows (tbl @ [r]) rs = Inl UniqueViolation" by (rule Cons.IH)
    then show ?thesis using False by simp
  qed
qed

lemma insert_booked_seats_rows:
  assumes "insert_booked_seats st rows = Inr st2"
  shows "st2 = st\<lparr>booked_seats := booked_seats st @ rows\<rparr>"
    and "insert_rows (booked_seats st) rows = Inr (booked_seats st @ rows)"
    and "\<forall>r \<in> set rows. seat_booking r \<in> set (map booking_id (bookings st))"
proof -
  obtain tbl where ir: "insert_rows (booked_seats st) rows = Inr tbl"
    using assms by (cases "insert_rows (booked_seats st) rows") (simp_all add: insert_booked_seats_def)
  have tbl: "tbl = booked_seats st @ rows" by (rule insert_rows_Inr [OF ir])
  show "insert_rows (booked_seats st) rows = Inr (booked_seats st @ rows)" using ir tbl by simp
  show "st2 = st\<lparr>booked_seats := booked_seats st @ rows\<rparr>"
    using assms ir tbl by (simp add: insert_booked_seats_def split: if_splits)
  show "\<forall>r \<in> set rows. seat_booking r \<in> set (map booking_id (bookings st))"
    using assms ir by (simp add: insert_booked_seats_def split: if_splits)
qed

lemma insert_booking_Inr:
  assumes "insert_booking st uid sid sel price = Inr (b, st1)"
  shows "b = \<lparr>booking_id = fresh_id st, user_id = uid, booking_showtime = sid,
               booking_seats = sel, total_price = price, booking_status = ''confirmed''\<rparr>"
    and "st1 = st\<lparr>bookings := bookings st @ [b]\<rparr>"
    and "sid \<in> set (map showtime_id (showtimes st))"
  using assms by (auto simp: insert_booking_def Let_def split: if_splits)


subsection \<open>Booking submission\<close>

lemma handleBooking_guard:
  "handleBooking None sid (pg, st) = (pg, st)"
  "showtime pg = None \<Longrightarrow> handleBooking user sid (pg, st) = (pg, st)"
  "selectedSeats pg = [] \<Longrightarrow> handleBooking user sid (pg, st) = (pg, st)"
  by (auto simp: handleBooking_def split: option.splits)

lemma handleBooking_success:
  assumes "showtime pg = Some sd" "selectedSeats pg \<noteq> []"
    and "try_booking uid sid sd (selectedSeats pg) st = (Inr b, st')"
  shows "handleBooking (Some uid) sid (pg, st) =
           (pg\<lparr>toasts := toasts pg @ [BookingConfirmed (length (selectedSeats pg))],
               navigated := navigated pg @ [''/bookings''], booking := False\<rparr>, st')"
  using assms by (simp add: handleBooking_def)

lemma handleBooking_failure:
  assumes "showtime pg = Some sd" "selectedSeats pg \<noteq> []"
    and "try_booking uid sid sd (selectedSeats pg) st = (Inl e, st')"
  shows "handleBooking (Some uid) sid (pg, st) =
           (pg\<lparr>toasts := toasts pg @ [BookingFailed e], booking := False\<rparr>, st')"
  using assms by (simp add: handleBooking_def)

lemma try_booking_conflict:
  assumes "l \<in> set sel" and "l \<in> set (select_booked_seats st sid)"
    and ib: "insert_booking st uid sid sel (ticket_price sd * int (length sel)) = Inr (b, st1)"
  shows "try_booking uid sid sd sel st = (Inl UniqueViolation, st\<lparr>bookings := bookings st @ [b]\<rparr>)"
proof -
  note st1 = insert_booking_Inr(2) [OF ib]
  obtain x where x: "x \<in> set (booked_seats st)" "seat_showtime x = sid" "seat_label x = l"
    using assms(2) by (auto simp: select_booked_seats_def)
  let ?r = "\<lparr>seat_showtime = sid, seat_label = l, seat_booking = booking_id b\<rparr>"
  have r: "?r \<in> set (seatReservations sid sel b)"
    using assms(1) by (auto simp: seatReservations_def)
  have x1: "x \<in> set (booked_seats st1)" using x(1) st1 by simp
  have "seat_showtime x = seat_showtime ?r \<and> seat_label x = seat_label ?r"
    using x(2,3) by simp
  with r x1 have "\<exists>r \<in> set (seatReservations sid sel b). \<exists>x \<in> set (booked_seats st1).
               seat_showtime x = seat_showtime r \<and> seat_label x = seat_label r"
    by blast
  then have "insert_rows (booked_seats st1) (seatReservations sid sel b) = Inl UniqueViolation"
    by (rule insert_rows_conflict)
  then show ?thesis using ib st1 by (simp add: try_booking_def insert_booked_seats_def)
qed

text \<open>
  The foreign key is an invariant of the submission: whatever its outcome, the store it
  leaves satisfies \<open>store_fk\<close> when the store it found did.
\<close>

lemma store_fk_try_booking:
  assumes "store_fk st"
  shows "store_fk (snd (try_booking uid sid sd sel st))"
proof -
  let ?p = "ticket_price sd * int (length sel)"
  show ?thesis
  proof (cases "insert_booking st uid sid sel ?p")
    case (Inl e)
    then show ?thesis using assms by (simp add: try_booking_def)
  next
    case (Inr r)
    obtain b st1 where r: "r = (b, st1)" by (cases r)
    note ib = Inr [unfolded r]
    note st1 = insert_booking_Inr(2) [OF ib]
    have fk1: "store_fk st1" using assms st1 by (auto simp: store_fk_def)
    show ?thesis
    proof (cases "insert_booked_seats st1 (seatReservations sid sel b)")
      case (Inl e)
      then show ?thesis using ib fk1 by (simp add: try_booking_def)
    next
      case (Inr st2)
      have st2: "st2 = st1\<lparr>booked_seats := booked_seats st1 @ seatReservations sid sel b\<rparr>"
        by (rule insert_booked_seats_rows(1) [OF Inr])
      have "store_fk st2"
        using fk1 st1 unfolding st2 by (auto simp: store_fk_def seatReservations_def)
      then show ?thesis using ib Inr by (simp add: try_booking_def)
    qed
  qed
qed





text \<open>
  Claim C1 on the code. When a requested seat is already reserved for the showtime and
  the booking row itself is accepted, the submission is reported as failed with the
  uniqueness violation and no reservation row is added, but the booking row inserted by
  the first statement stays in the store.
\<close>

theorem conflict_keeps_booking_row:
  assumes "showtime pg = Some sd"
    and "l \<in> set (selectedSeats pg)" and "l \<in> set (select_booked_seats st sid)"
    and "insert_booking st uid sid (selectedSeats pg)
           (ticket_price sd * int (length (selectedSeats pg))) = Inr (b, st1)"
  shows "handleBooking (Some uid) sid (pg, st) =
           (pg\<lparr>toasts := toasts pg @ [BookingFailed UniqueViolation], booking := False\<rparr>,
            st\<lparr>bookings := bookings st @ [b]\<rparr>)"
proof -
  have "selectedSeats pg \<noteq> []" using assms(2) by auto
  then show ?thesis
    using handleBooking_failure [OF assms(1) _ try_booking_conflict [OF assms(2,3,4)]] by simp
qed

theorem conflict_keeps_booking_row_witness:
  "showtime ex_page = Some ex_showtime
   \<and> ''A1'' \<in> set (selectedSeats ex_page) \<and> ''A1'' \<in> set (select_booked_seats ex_store1 ''s1'')
   \<and> handleBooking (Some ''u2'') ''s1'' (ex_page, ex_store1) =
        (ex_page\<lparr>toasts := toasts ex_page @ [BookingFailed UniqueViolation], booking := False\<rparr>,
         ex_store1\<lparr>bookings := [ex_booking1, ex_booking2]\<rparr>)"
proof -
  have a: "showtime ex_page = Some ex_showtime" by code_simp
  have b: "''A1'' \<in> set (selectedSeats ex_page)" by code_simp
  have c: "''A1'' \<in> set (select_booked_seats ex_store1 ''s1'')" by code_simp
  have d: "insert_booking ex_store1 ''u2'' ''s1'' (selectedSeats ex_page)
             (ticket_price ex_showtime * int (length (selectedSeats ex_page)))
           = Inr (ex_booking2, ex_store1\<lparr>bookings := bookings ex_store1 @ [ex_booking2]\<rparr>)"
    by code_simp
  have e: "bookings ex_store1 @ [ex_booking2] = [ex_booking1, ex_booking2]" by code_simp
  show ?thesis using conflict_keeps_booking_row [OF a b c d] a b c e by simp
qed

lemma try_booking_cases:
  "(\<exists>b st'. try_booking uid sid sd sel st = (Inr b, st')) \<or> (\<exists>e st'. try_booking uid sid sd sel st = (Inl e, st'))"
  by (cases "try_booking uid sid sd sel st") (metis sum.exhaust_sel)

lemma handleBooking_selectedSeats:
  "selectedSeats (fst (handleBooking user sid (pg, st))) = selectedSeats pg"
proof (cases "user = None \<or> showtime pg = None \<or> selectedSeats pg = []")
  case True
  then show ?thesis using handleBooking_guard by (metis fst_conv)
next
  case False
  then obtain uid sd where u: "user = Some uid" and s: "showtime pg = Some sd"
    and n: "selectedSeats pg \<noteq> []" by auto
  from try_booking_cases [of uid sid sd "selectedSeats pg" st] show ?thesis
  proof (elim disjE exE)
    fix b st' assume "try_booking uid sid sd (selectedSeats pg) st = (Inr b, st')"
    from handleBooking_success [OF s n this] show ?thesis by (simp add: u)
  next
    fix e st' assume "try_booking uid sid sd (selectedSeats pg) st = (Inl e, st')"
    from handleBooking_failure [OF s n this] show ?thesis by (simp add: u)
  qed
qed


lemma seat_page_route_booking: "seat_page_route (''/booking/'' @ showtimeId)"
  by (simp add: seat_page_route_def)




text \<open>
  Every error the store raises during the reservation transaction is shown to the user
  in a toast that carries it.
\<close>

lemma store_failure_surfaced:
  assumes "showtime pg = Some sd" "selectedSeats pg \<noteq> []"
    and "try_booking uid sid sd (selectedSeats pg) st = (Inl e, st')"
  shows "toasts (fst (handleBooking (Some uid) sid (pg, st))) = toasts pg @ [BookingFailed e]"
  using handleBooking_failure [OF assms] by simp

text \<open>
  Claim C7 on the code. Nobody is signed in, the showtime is loaded and seat A1 is
  selected: the submission returns the page and the store as they were, with no toast
  and no navigation, so the user is told nothing. The movie page's handler, given no
  user, shows "Please sign in" and goes to the sign-in route.
\<close>

theorem silent_return_without_user:
  "showtime ex_page = Some ex_showtime \<and> selectedSeats ex_page = [''A1'']
   \<and> toasts ex_page = [] \<and> navigated ex_page = []
   \<and> handleBooking None ''s1'' (ex_page, ex_store) = (ex_page, ex_store)
   \<and> MovieDetails_handleBooking None ''s1'' ([], []) = ([PleaseSignIn], [''/auth''])"
proof -
  have "showtime ex_page = Some ex_showtime" "selectedSeats ex_page = [''A1'']"
    "toasts ex_page = []" "navigated ex_page = []"
    by code_simp+
  moreover have "handleBooking None ''s1'' (ex_page, ex_store) = (ex_page, ex_store)"
    by (rule handleBooking_guard)
  moreover have "MovieDetails_handleBooking None ''s1'' ([], []) = ([PleaseSignIn], [''/auth''])"
    by (simp add: MovieDetails_handleBooking_def)
  ultimately show ?thesis by blast
qed

subsection \<open>Fetching the showtime and its seats\<close>

lemma fetch_error:
  "select_showtime st sid = Inl e \<Longrightarrow>
     fetchShowtimeAndSeats sid st pg = pg\<lparr>toasts := toasts pg @ [ErrorLoadingSeats], loading := False\<rparr>"
  by (simp add: fetchShowtimeAndSeats_def)

lemma fetch_ok:
  "select_showtime st sid = Inr sd \<Longrightarrow>
     fetchShowtimeAndSeats sid st pg =
       pg\<lparr>showtime := Some sd,
          seats := allSeats (set (select_booked_seats st sid)) (seat_layout sd),
          loading := False\<rparr>"
  by (simp add: fetchShowtimeAndSeats_def)

lemma fetch_frame:
  "fetchShowtimeAndSeats sid st pg =
     pg\<lparr>showtime := showtime (fetchShowtimeAndSeats sid st pg),
        seats := seats (fetchShowtimeAndSeats sid st pg),
        loading := False,
        toasts := toasts (fetchShowtimeAndSeats sid st pg)\<rparr>"
  by (cases "select_showtime st sid") (simp_all add: fetch_error fetch_ok)

lemma fetch_selectedSeats:
  "selectedSeats (fetchShowtimeAndSeats sid st pg) = selectedSeats pg"
  by (cases "select_showtime st sid") (simp_all add: fetch_error fetch_ok)

lemma isBooked_allSeats:
  "s \<in> set (allSeats B L) \<Longrightarrow> isBooked s = (label s \<in> B)"
  by (auto simp: allSeats_def row_seats_def)

text \<open>
  The first fetch of a page clears its loading flag, and a fetch for a showtime the store
  does not hold appends an error toast: the fetch writes more than the seats and the
  showtime.
\<close>

theorem refetch_frame_counterexample:
  "loading initial_page = True
   \<and> loading (fetchShowtimeAndSeats ''s1'' ex_store initial_page) = False
   \<and> toasts (fetchShowtimeAndSeats ''s2'' ex_store initial_page) = [ErrorLoadingSeats]"
  by code_simp

text \<open>
  Claim C10, as amended. A fetch (on mount or on a change notification) writes only the
  showtime, the seats, the loading flag and, on a store error, the toasts; it never
  writes the pending selection. Hence a selected seat that has become reserved stays
  selected after the refetch, is flagged as booked in the new seat list, and the next
  submission hands the whole old selection, that seat included, to the reservation
  transaction.
\<close>

theorem refetch_frame:
  "fetchShowtimeAndSeats sid st pg =
     pg\<lparr>showtime := showtime (fetchShowtimeAndSeats sid st pg),
        seats := seats (fetchShowtimeAndSeats sid st pg),
        loading := False,
        toasts := toasts (fetchShowtimeAndSeats sid st pg)\<rparr>
   \<and> selectedSeats (fetchShowtimeAndSeats sid st pg) = selectedSeats pg
   \<and> (l \<in> set (selectedSeats pg1) \<and> l \<in> set (select_booked_seats st1 sid1)
        \<and> select_showtime st1 sid1 = Inr sd
      \<longrightarrow> l \<in> set (selectedSeats (fetchShowtimeAndSeats sid1 st1 pg1))
          \<and> list_all (\<lambda>s. label s = l \<longrightarrow> isBooked s) (seats (fetchShowtimeAndSeats sid1 st1 pg1))
          \<and> snd (handleBooking (Some uid) sid1 (fetchShowtimeAndSeats sid1 st1 pg1, st2))
             = snd (try_booking uid sid1 sd (selectedSeats pg1) st2))"
proof (intro conjI impI)
  show "fetchShowtimeAndSeats sid st pg =
     pg\<lparr>showtime := showtime (fetchShowtimeAndSeats sid st pg),
        seats := seats (fetchShowtimeAndSeats sid st pg),
        loading := False,
        toasts := toasts (fetchShowtimeAndSeats sid st pg)\<rparr>"
    by (rule fetch_frame)
next
  show "selectedSeats (fetchShowtimeAndSeats sid st pg) = selectedSeats pg"
    by (rule fetch_selectedSeats)
next
  assume h: "l \<in> set (selectedSeats pg1) \<and> l \<in> set (select_booked_seats st1 sid1)
        \<and> select_showtime st1 sid1 = Inr sd"
  then show "l \<in> set (selectedSeats (fetchShowtimeAndSeats sid1 st1 pg1))"
    by (simp add: fetch_selectedSeats)
  from h have ok: "select_showtime st1 sid1 = Inr sd" by simp
  show "list_all (\<lambda>s. label s = l \<longrightarrow> isBooked s) (seats (fetchShowtimeAndSeats sid1 st1 pg1))"
    using h by (auto simp: fetch_ok [OF ok] list_all_iff isBooked_allSeats)
  let ?pg = "fetchShowtimeAndSeats sid1 st1 pg1"
  have sh: "showtime ?pg = Some sd" by (simp add: fetch_ok [OF ok])
  have sel: "selectedSeats ?pg = selectedSeats pg1" by (rule fetch_selectedSeats)
  have ne: "selectedSeats ?pg \<noteq> []" using h sel by auto
  from try_booking_cases [of uid sid1 sd "selectedSeats ?pg" st2]
  show "snd (handleBooking (Some uid) sid1 (?pg, st2)) = snd (try_booking uid sid1 sd (selectedSeats pg1) st2)"
  proof (elim disjE exE)
    fix b st' assume t: "try_booking uid sid1 sd (selectedSeats ?pg) st2 = (Inr b, st')"
    from handleBooking_success [OF sh ne t] t show ?thesis by (simp add: sel)
  next
    fix e st' assume t: "try_booking uid sid1 sd (selectedSeats ?pg) st2 = (Inl e, st')"
    from handleBooking_failure [OF sh ne t] t show ?thesis by (simp add: sel)
  qed
qed

theorem refetch_frame_witness:
  "''A1'' \<in> set (selectedSeats ex_page) \<and> ''A1'' \<in> set (select_booked_seats ex_store1 ''s1'')
   \<and> select_showtime ex_store1 ''s1'' = Inr ex_showtime
   \<and> selectedSeats (fetchShowtimeAndSeats ''s1'' ex_store1 ex_page) = [''A1'']
   \<and> map (\<lambda>s. (label s, isBooked s)) (seats (fetchShowtimeAndSeats ''s1'' ex_store1 ex_page))
        = [(''A1'', True), (''A2'', False), (''B1'', False), (''B2'', True)]
   \<and> snd (handleBooking (Some ''u2'') ''s1'' (fetchShowtimeAndSeats ''s1'' ex_store1 ex_page, ex_store1))
        = snd (try_booking ''u2'' ''s1'' ex_showtime (selectedSeats ex_page) ex_store1)
   \<and> bookings (snd (try_booking ''u2'' ''s1'' ex_showtime (selectedSeats ex_page) ex_store1))
        = [ex_booking1, ex_booking2]"
proof -
  have a: "''A1'' \<in> set (selectedSeats ex_page)" by code_simp
  have b: "''A1'' \<in> set (select_booked_seats ex_store1 ''s1'')" by code_simp
  have c: "select_showtime ex_store1 ''s1'' = Inr ex_showtime" by code_simp
  have d: "selectedSeats ex_page = [''A1'']" by code_simp
  have e: "map (\<lambda>s. (label s, isBooked s)) (seats (fetchShowtimeAndSeats ''s1'' ex_store1 ex_page))
        = [(''A1'', True), (''A2'', False), (''B1'', False), (''B2'', True)]" by code_simp
  have f: "bookings (snd (try_booking ''u2'' ''s1'' ex_showtime (selectedSeats ex_page) ex_store1))
        = [ex_booking1, ex_booking2]" by code_simp
  from refetch_frame [of "''s1''" ex_store1 ex_page "''A1''" ex_page ex_store1 "''s1''" ex_showtime
      "''u2''" ex_store1] a b c
  have "selectedSeats (fetchShowtimeAndSeats ''s1'' ex_store1 ex_page) = selectedSeats ex_page
     \<and> snd (handleBooking (Some ''u2'') ''s1'' (fetchShowtimeAndSeats ''s1'' ex_store1 ex_page, ex_store1))
        = snd (try_booking ''u2'' ''s1'' ex_showtime (selectedSeats ex_page) ex_store1)"
    by blast
  then show ?thesis using a b c d e f by simp
qed

text \<open>
  A showtime whose hall has a row with a seat count of zero and a row without a type
  tag is fetched without any error: no toast, and the seat list holds the one seat of
  the second row, without a type.
\<close>

theorem layout_never_rejected_counterexample:
  "select_showtime ex_store_odd ''s1'' = Inr (ex_showtime\<lparr>seat_layout := ex_hall_odd\<rparr>)
   \<and> toasts (fetchShowtimeAndSeats ''s1'' ex_store_odd initial_page) = []
   \<and> seats (fetchShowtimeAndSeats ''s1'' ex_store_odd initial_page)
        = [\<lparr>label = ''B1'', seat_row = ''B'', col = 1, seat_type = None, isBooked = False\<rparr>]"
  by code_simp

text \<open>
  Claim C6, as amended. The layout expansion validates nothing and fails for no layout:
  whenever the store returns the showtime, the fetch shows no error and sets the seats
  to the expansion of its layout. A row with a non-positive seat count contributes no
  seat, and the seats of a row without a type tag carry no type.
\<close>

theorem layout_never_rejected:
  "(select_showtime st sid = Inr sd
      \<longrightarrow> toasts (fetchShowtimeAndSeats sid st pg) = toasts pg
          \<and> seats (fetchShowtimeAndSeats sid st pg)
              = allSeats (set (select_booked_seats st sid)) (seat_layout sd))
   \<and> (cols r \<le> 0 \<longrightarrow> row_seats B r = [])
   \<and> (\<forall>s \<in> set (row_seats B r'). seat_type s = type r')"
  by (auto simp: fetch_ok row_seats_def)

theorem layout_never_rejected_witness:
  "select_showtime ex_store_odd ''s1'' = Inr (ex_showtime\<lparr>seat_layout := ex_hall_odd\<rparr>)
   \<and> cols \<lparr>row = ''A'', cols = 0, type = Some ''standard''\<rparr> \<le> 0
   \<and> toasts (fetchShowtimeAndSeats ''s1'' ex_store_odd initial_page) = toasts initial_page
   \<and> row_seats {} \<lparr>row = ''A'', cols = 0, type = Some ''standard''\<rparr> = []
   \<and> list_all (\<lambda>s. seat_type s = None) (row_seats {} \<lparr>row = ''B'', cols = 1, type = None\<rparr>)
   \<and> row_seats {} \<lparr>row = ''B'', cols = 1, type = None\<rparr> \<noteq> []"
proof -
  have a: "select_showtime ex_store_odd ''s1'' = Inr (ex_showtime\<lparr>seat_layout := ex_hall_odd\<rparr>)"
    by code_simp
  have b: "row_seats {} \<lparr>row = ''B'', cols = 1, type = None\<rparr> \<noteq> []" by code_simp
  show ?thesis
    using layout_never_rejected [of ex_store_odd "''s1''" "ex_showtime\<lparr>seat_layout := ex_hall_odd\<rparr>"
        initial_page "\<lparr>row = ''A'', cols = 0, type = Some ''standard''\<rparr>" "{}"
        "\<lparr>row = ''B'', cols = 1, type = None\<rparr>"] a b
    by (simp add: list_all_iff)
qed

subsection \<open>Seat states\<close>

lemma seat_states_cases:
  "seat_states sel s =
     (if isBooked s then (if label s \<in> set sel then [booked, selected] else [booked])
      else if label s \<in> set sel then [selected] else [available])"
  by (simp add: seat_states_def)

text \<open>
  Claim C3 on the code. A viewer selects A1 while it is free; another user then books A1
  and B2; the change notification refetches. A1 is still in the viewer's selection and
  is now flagged as booked, and both the booked clause and the selected clause of the
  seat button hold for it: the seat is not in exactly one state, and it is not kept out
  of the selected state.
\<close>

theorem reserved_selected_seat_states:
  "selectedSeats (fetchShowtimeAndSeats ''s1'' ex_store1 ex_page) = [''A1'']
   \<and> map (\<lambda>s. (label s, isBooked s, seat_states (selectedSeats (fetchShowtimeAndSeats ''s1'' ex_store1 ex_page)) s))
         (seats (fetchShowtimeAndSeats ''s1'' ex_store1 ex_page))
       = [(''A1'', True, [booked, selected]), (''A2'', False, [available]),
          (''B1'', False, [available]), (''B2'', True, [booked])]"
  by code_simp

subsection \<open>Racing submissions\<close>

lemma client_steps_try_booking:
  "(case client_step sub Submitted st of (p, st1) \<Rightarrow> client_step sub p st1) =
     (case try_booking (sub_user sub) (sub_showtime sub) (sub_showtimeData sub) (sub_seats sub) st of
        (Inr b, st') \<Rightarrow> (Confirmed b, st')
      | (Inl e, st') \<Rightarrow> (Failed e, st'))"
  by (auto simp: client_step_def try_booking_def Let_def split: sum.splits prod.splits)

lemma insert_rows_unique:
  "distinct (map seat_key tbl) \<Longrightarrow> insert_rows tbl rows = Inr tbl' \<Longrightarrow> distinct (map seat_key tbl')"
proof (induction rows arbitrary: tbl)
  case Nil
  then show ?case by simp
next
  case (Cons r rs)
  from Cons.prems(2) have free: "\<not> (\<exists>x \<in> set tbl. seat_showtime x = seat_showtime r \<and> seat_label x = seat_label r)"
    and rest: "insert_rows (tbl @ [r]) rs = Inr tbl'"
    by (simp_all split: if_splits)
  from free have "seat_key r \<notin> set (map seat_key tbl)" by (auto simp: seat_key_def)
  with Cons.prems(1) have "distinct (map seat_key (tbl @ [r]))" by simp
  then show ?case using rest by (rule Cons.IH)
qed

lemma insert_booked_seats_Inr:
  assumes "insert_booked_seats st rows = Inr st2"
  shows "st2 = st\<lparr>booked_seats := booked_seats st @ rows\<rparr>"
    and "unique_seats st \<Longrightarrow> unique_seats st2"
proof -
  note st2 = insert_booked_seats_rows(1) [OF assms]
  note ir = insert_booked_seats_rows(2) [OF assms]
  show "st2 = st\<lparr>booked_seats := booked_seats st @ rows\<rparr>" by (rule st2)
  show "unique_seats st2" if "unique_seats st"
    using insert_rows_unique [OF _ ir] that st2 by (simp add: unique_seats_def)
qed

lemma race_inv_update_inert:
  assumes inv: "race_inv subs (ps, st)" and i: "i < length ps"
    and p: "carried p = None" "\<And>b. p \<noteq> Confirmed b"
  shows "race_inv subs (ps[i := p], st)"
proof -
  have car: "carried (ps ! j) = Some c" if "j < length ps" "carried ((ps[i := p]) ! j) = Some c" for j c
    using that i p(1) by (cases "j = i") simp_all
  have conf: "ps ! j = Confirmed c" if "j < length ps" "(ps[i := p]) ! j = Confirmed c" for j c
    using that i p(2) by (cases "j = i") simp_all
  have a: "length (ps[i := p]) = length subs \<and> unique_seats st"
    using inv unfolding race_inv_def Let_def by simp
  have b: "booking_id c \<in> set (map booking_id (bookings st))"
    if "j < length ps" "carried ((ps[i := p]) ! j) = Some c" for j c
    using inv that(1) car [OF that] unfolding race_inv_def Let_def by simp
  have c: "booking_id c \<noteq> booking_id c'"
    if "j < length ps" "k < length ps" "j \<noteq> k"
      "carried ((ps[i := p]) ! j) = Some c" "carried ((ps[i := p]) ! k) = Some c'" for j k c c'
    using inv that(1,2,3) car [OF that(1,4)] car [OF that(2,5)] unfolding race_inv_def Let_def by simp
  have d: "holds_seats (subs ! j) c st"
    if "j < length ps" "(ps[i := p]) ! j = Confirmed c" for j c
    using inv that(1) conf [OF that] unfolding race_inv_def Let_def by simp
  show ?thesis unfolding race_inv_def Let_def using a b c d by simp
qed

lemma race_inv_booking_inserted:
  assumes inv: "race_inv subs (ps, st)" and i: "i < length ps"
    and cur: "ps ! i = Submitted"
    and ib: "insert_booking st uid sid sel price = Inr (b, st1)"
  shows "race_inv subs (ps[i := BookingInserted b], st1)"
proof -
  note st1 = insert_booking_Inr(2) [OF ib]
  have id: "booking_id b = fresh_id st" by (subst insert_booking_Inr(1) [OF ib]) simp
  have fresh: "booking_id b \<notin> set (map booking_id (bookings st))"
    unfolding id by (rule fresh_id_notin)
  have old: "booking_id c \<in> set (map booking_id (bookings st))"
    if "j < length ps" "carried (ps ! j) = Some c" for j c
    using inv that unfolding race_inv_def Let_def by auto
  have other: "booking_id c \<noteq> booking_id b" if "j < length ps" "carried (ps ! j) = Some c" for j c
    using old [OF that] fresh by metis
  have a: "length (ps[i := BookingInserted b]) = length subs \<and> unique_seats st1"
    using inv st1 unfolding race_inv_def Let_def by (simp add: unique_seats_def)
  have b: "booking_id c \<in> set (map booking_id (bookings st1))"
    if "j < length ps" "carried ((ps[i := BookingInserted b]) ! j) = Some c" for j c
  proof (cases "j = i")
    case True
    then show ?thesis using that i st1 by (simp add: carried_def)
  next
    case False
    then show ?thesis using that old [of j c] st1 by simp
  qed
  have c: "booking_id c \<noteq> booking_id c'"
    if "j < length ps" "k < length ps" "j \<noteq> k"
      "carried ((ps[i := BookingInserted b]) ! j) = Some c"
      "carried ((ps[i := BookingInserted b]) ! k) = Some c'" for j k c c'
  proof -
    consider "j = i" | "k = i" | "j \<noteq> i" "k \<noteq> i" by blast
    then show ?thesis
    proof cases
      case 1
      then have "c = b" using that i by (simp add: carried_def)
      moreover have "carried (ps ! k) = Some c'" using that 1 by simp
      ultimately show ?thesis using other [OF that(2)] by metis
    next
      case 2
      then have "c' = b" using that i by (simp add: carried_def)
      moreover have "carried (ps ! j) = Some c" using that 2 by simp
      ultimately show ?thesis using other [OF that(1)] by metis
    next
      case 3
      then show ?thesis using that inv unfolding race_inv_def Let_def by simp
    qed
  qed
  have d: "holds_seats (subs ! j) c st1"
    if "j < length ps" "(ps[i := BookingInserted b]) ! j = Confirmed c" for j c
  proof -
    have "j \<noteq> i" using that i by auto
    then have "ps ! j = Confirmed c" using that by simp
    then have "holds_seats (subs ! j) c st" using inv that(1) unfolding race_inv_def Let_def by simp
    then show ?thesis using st1 by (simp add: holds_seats_def)
  qed
  show ?thesis unfolding race_inv_def Let_def using a b c d by simp
qed

lemma race_inv_confirmed:
  assumes inv: "race_inv subs (ps, st)" and i: "i < length ps"
    and cur: "ps ! i = BookingInserted b"
    and is2: "insert_booked_seats st (seatReservations (sub_showtime (subs ! i)) (sub_seats (subs ! i)) b) = Inr st2"
  shows "race_inv subs (ps[i := Confirmed b], st2)"
proof -
  note st2 = insert_booked_seats_Inr(1) [OF is2]
  have a: "length (ps[i := Confirmed b]) = length subs \<and> unique_seats st2"
    using inv insert_booked_seats_Inr(2) [OF is2] unfolding race_inv_def Let_def by simp
  have same: "carried ((ps[i := Confirmed b]) ! j) = carried (ps ! j)" if "j < length ps" for j
    using that cur by (cases "j = i") (simp_all add: carried_def)
  have b: "booking_id c \<in> set (map booking_id (bookings st2))"
    if "j < length ps" "carried ((ps[i := Confirmed b]) ! j) = Some c" for j c
    using that inv st2 unfolding race_inv_def Let_def by (simp add: same)
  have c: "booking_id c \<noteq> booking_id c'"
    if "j < length ps" "k < length ps" "j \<noteq> k"
      "carried ((ps[i := Confirmed b]) ! j) = Some c"
      "carried ((ps[i := Confirmed b]) ! k) = Some c'" for j k c c'
    using that inv unfolding race_inv_def Let_def by (simp add: same)
  have d: "holds_seats (subs ! j) c st2"
    if "j < length ps" "(ps[i := Confirmed b]) ! j = Confirmed c" for j c
  proof (cases "j = i")
    case True
    then have "c = b" using that i by simp
    then show ?thesis using True st2 by (auto simp: holds_seats_def seatReservations_def)
  next
    case False
    then have "ps ! j = Confirmed c" using that by simp
    then have "holds_seats (subs ! j) c st" using inv that(1) unfolding race_inv_def Let_def by simp
    then show ?thesis using st2 by (simp add: holds_seats_def)
  qed
  show ?thesis unfolding race_inv_def Let_def using a b c d by simp
qed

lemma race_inv_step:
  assumes inv: "race_inv subs (ps, st)" and i: "i < length ps"
    and step: "client_step (subs ! i) (ps ! i) st = (p, st')"
  shows "race_inv subs (ps[i := p], st')"
proof (cases "ps ! i")
  case Submitted
  let ?r = "insert_booking st (sub_user (subs ! i)) (sub_showtime (subs ! i)) (sub_seats (subs ! i))
              (ticket_price (sub_showtimeData (subs ! i)) * int (length (sub_seats (subs ! i))))"
  show ?thesis
  proof (cases ?r)
    case (Inl e)
    then have "p = Failed e" "st' = st" using step Submitted by (simp_all add: client_step_def)
    then show ?thesis using race_inv_update_inert [OF inv i, of "Failed e"] by (simp add: carried_def)
  next
    case (Inr r)
    obtain b st1 where r: "r = (b, st1)" by (cases r)
    then have "p = BookingInserted b" "st' = st1" using step Submitted Inr by (simp_all add: client_step_def)
    then show ?thesis using race_inv_booking_inserted [OF inv i Submitted] Inr r by simp
  qed
next
  case (BookingInserted b)
  let ?r = "insert_booked_seats st (seatReservations (sub_showtime (subs ! i)) (sub_seats (subs ! i)) b)"
  show ?thesis
  proof (cases ?r)
    case (Inl e)
    then have "p = Failed e" "st' = st" using step BookingInserted by (simp_all add: client_step_def)
    then show ?thesis using race_inv_update_inert [OF inv i, of "Failed e"] by (simp add: carried_def)
  next
    case (Inr st2)
    then have "p = Confirmed b" "st' = st2" using step BookingInserted by (simp_all add: client_step_def)
    then show ?thesis using race_inv_confirmed [OF inv i BookingInserted Inr] by simp
  qed
next
  case (Confirmed b)
  then have "p = ps ! i" "st' = st" using step by (simp_all add: client_step_def)
  then show ?thesis using inv i by simp
next
  case (Failed e)
  then have "p = ps ! i" "st' = st" using step by (simp_all add: client_step_def)
  then show ?thesis using inv i by simp
qed

lemma race_inv_run: "race_inv subs cfg \<Longrightarrow> race_inv subs (run sched subs cfg)"
proof (induction sched arbitrary: cfg)
  case Nil
  then show ?case by simp
next
  case (Cons i sched)
  obtain ps st where cfg: "cfg = (ps, st)" by (cases cfg)
  show ?case
  proof (cases "i < length ps \<and> i < length subs")
    case True
    obtain p st' where step: "client_step (subs ! i) (ps ! i) st = (p, st')"
      by (cases "client_step (subs ! i) (ps ! i) st")
    have "race_inv subs (ps[i := p], st')"
      using race_inv_step [OF _ _ step] Cons.prems True cfg by simp
    then have "race_inv subs (run sched subs (ps[i := p], st'))" by (rule Cons.IH)
    then show ?thesis using True step cfg by simp
  next
    case False
    have "race_inv subs (run sched subs (ps, st))" using Cons.prems cfg by (intro Cons.IH) simp
    then show ?thesis using False cfg by auto
  qed
qed

lemma race_inv_initial:
  "unique_seats st \<Longrightarrow> race_inv subs (replicate (length subs) Submitted, st)"
  by (simp add: race_inv_def carried_def)

lemma contested_seat_one_winner:
  assumes "unique_seats st"
    and "run sched subs (replicate (length subs) Submitted, st) = (ps, st')"
    and "i < length subs" "j < length subs" "i \<noteq> j"
    and "ps ! i = Confirmed b" "ps ! j = Confirmed b'"
    and "sub_showtime (subs ! i) = sub_showtime (subs ! j)"
  shows "set (sub_seats (subs ! i)) \<inter> set (sub_seats (subs ! j)) = {}"
proof (rule ccontr)
  assume "\<not> ?thesis"
  then obtain l where li: "l \<in> set (sub_seats (subs ! i))" and lj: "l \<in> set (sub_seats (subs ! j))"
    by auto
  have inv: "race_inv subs (ps, st')"
    using race_inv_run [OF race_inv_initial [OF assms(1)], of subs sched] assms(2) by simp
  then have len: "length ps = length subs" and uniq: "unique_seats st'"
    unfolding race_inv_def Let_def by simp_all
  let ?x = "\<lparr>seat_showtime = sub_showtime (subs ! i), seat_label = l, seat_booking = booking_id b\<rparr>"
  let ?y = "\<lparr>seat_showtime = sub_showtime (subs ! j), seat_label = l, seat_booking = booking_id b'\<rparr>"
  have "holds_seats (subs ! i) b st'" "holds_seats (subs ! j) b' st'"
    using inv assms(3,4,6,7) len unfolding race_inv_def Let_def by simp_all
  then have x: "?x \<in> set (booked_seats st')" and y: "?y \<in> set (booked_seats st')"
    using li lj by (simp_all add: holds_seats_def)
  have "seat_key ?x = seat_key ?y" using assms(8) by (simp add: seat_key_def)
  moreover have "inj_on seat_key (set (booked_seats st'))"
    using uniq by (simp add: unique_seats_def distinct_map)
  ultimately have "?x = ?y" using x y by (metis inj_onD)
  then have "booking_id b = booking_id b'" by simp
  moreover have "booking_id b \<noteq> booking_id b'"
    using inv assms(3,4,5,6,7) len unfolding race_inv_def Let_def
    by (simp add: carried_def)
  ultimately show False by simp
qed

text \<open>
  Claim C2 on the code. Two clients submit for the same showtime, both asking for A1,
  with their statements interleaved (and, second, one after the other). The first is
  confirmed, the second is rejected with the uniqueness violation, and the rejected
  submission's booking row stays in the store: it did not create zero rows.
\<close>

theorem racing_submissions_loser_row:
  "run [0, 1, 0, 1] ex_subs ([Submitted, Submitted], ex_store)
     = ([Confirmed ex_booking1, Failed UniqueViolation],
        ex_store1\<lparr>bookings := [ex_booking1, ex_booking2]\<rparr>)
   \<and> run [0, 0, 1, 1] ex_subs ([Submitted, Submitted], ex_store)
     = ([Confirmed ex_booking1, Failed UniqueViolation],
        ex_store1\<lparr>bookings := [ex_booking1, ex_booking2]\<rparr>)"
  by code_simp

end
